theory Spec2Isabelle
  imports Main
begin

section \<open>JPEG2PDF: a shallow embedding of jpeg2pdf.py\<close>

text \<open>
  Python exceptions are values of the type \<open>error\<close>; a function that may raise returns
  \<open>error + 'a\<close>, with \<open>Inl\<close> for the exception. Python strings are \<open>string\<close>s, Python
  integers are \<open>int\<close>s, \<open>None\<close> is the \<open>None\<close> of an option type.
\<close>

datatype error =
    ValueError string
  | FileNotFoundError
  | UnidentifiedImageError
  | IndexError
  | PermissionError
  | OSError

subsection \<open>Python primitives used by the program\<close>

text \<open>\<open>xs[:k]\<close>: the whole list for \<open>None\<close>, the first \<open>k\<close> items for \<open>k \<ge> 0\<close>, all but the
  last \<open>-k\<close> items for a negative \<open>k\<close>.\<close>

definition slice_to :: "'a list \<Rightarrow> int option \<Rightarrow> 'a list" where
  "slice_to xs stop =
     (case stop of
        None \<Rightarrow> xs
      | Some k \<Rightarrow> if k < 0 then take (nat (int (length xs) + k)) xs else take (nat k) xs)"

text \<open>\<open>s.find(c)\<close> for a one-character \<open>c\<close>: the least index of \<open>c\<close> in \<open>s\<close>, or \<open>-1\<close>.\<close>

fun find_from :: "char \<Rightarrow> string \<Rightarrow> int \<Rightarrow> int" where
  "find_from c [] i = -1"
| "find_from c (x # xs) i = (if x = c then i else find_from c xs (i + 1))"

definition str_find :: "string \<Rightarrow> char \<Rightarrow> int" where
  "str_find s c = find_from c s 0"

subsection \<open>parse_page_number_formatting_string\<close>

text \<open>The local variables of the scan that survive an iteration of the loop.\<close>

record scan_state =
  style :: "string option"
  page_style_pos :: "int option"
  percent_char_read :: bool

definition scan_init :: scan_state where
  "scan_init = \<lparr>style = None, page_style_pos = None, percent_char_read = False\<rparr>"

text \<open>The tail of the \<open>elif percent_char_read\<close> branch: the two statements that follow the
  inner \<open>if\<close> chain, run at index \<open>i\<close>.\<close>

definition end_of_pair :: "int \<Rightarrow> scan_state \<Rightarrow> scan_state" where
  "end_of_pair i st =
     st\<lparr>page_style_pos := (if style st \<noteq> None then Some (i - 1) else page_style_pos st),
        percent_char_read := False\<rparr>"

text \<open>The \<open>for i in range(len(page_format))\<close> loop, on the characters from index \<open>i\<close> on.\<close>

fun scan :: "string \<Rightarrow> int \<Rightarrow> scan_state \<Rightarrow> error + scan_state" where
  "scan [] i st = Inr st"
| "scan (c # cs) i st =
     (if c = CHR ''%'' \<and> \<not> percent_char_read st then
        scan cs (i + 1) (st\<lparr>percent_char_read := True\<rparr>)
      else if percent_char_read st then
        (if c = CHR ''%'' then
           scan cs (i + 1) (end_of_pair i st)
         else if style st \<noteq> None then
           Inl (ValueError ''only one page numbering style may be specified in the formatting string'')
         else if c \<in> set ''DRrAa'' then
           scan cs (i + 1) (end_of_pair i (st\<lparr>style := Some (''/'' @ [c])\<rparr>))
         else
           Inl (ValueError (''invalid formatting style %'' @ [c])))
      else scan cs (i + 1) st)"

definition parse_page_number_formatting_string ::
    "string \<Rightarrow> error + (string \<times> string option)" where
  "parse_page_number_formatting_string page_format =
     (case scan page_format 0 scan_init of
        Inl e \<Rightarrow> Inl e
      | Inr st \<Rightarrow>
          let prefix = slice_to page_format (page_style_pos st) in
          if page_style_pos st \<noteq> None
             \<and> page_style_pos st \<noteq> Some (int (length page_format) - 2)
          then Inl (ValueError ''no suffixes are permitted in the page formatting string'')
          else Inr (prefix, style st))"

subsection \<open>The format-string language, in the specification's words\<close>

text \<open>
  The specification reads a format string left to right as a sequence of tokens: an
  unescaped \<open>%\<close> and the character after it form one token (the escape \<open>%%\<close>, a style
  token \<open>%D %R %r %A %a\<close>, or an unrecognised pair), an unescaped \<open>%\<close> that ends the
  string stands alone, and every other character is literal text.
\<close>

datatype token = Lit char | Escape | Style char | Unknown char | Dangling

fun tokens :: "string \<Rightarrow> token list" where
  "tokens [] = []"
| "tokens [c] = (if c = CHR ''%'' then [Dangling] else [Lit c])"
| "tokens (c # d # cs) =
     (if c = CHR ''%'' then
        (if d = CHR ''%'' then Escape
         else if d \<in> set ''DRrAa'' then Style d
         else Unknown d) # tokens cs
      else Lit c # tokens (d # cs))"

fun is_style :: "token \<Rightarrow> bool" where
  "is_style (Style c) = True"
| "is_style t = False"

fun is_text :: "token \<Rightarrow> bool" where
  "is_text (Lit c) = True"
| "is_text Escape = True"
| "is_text t = False"

fun is_unknown :: "token \<Rightarrow> bool" where
  "is_unknown (Unknown c) = True"
| "is_unknown t = False"

text \<open>The token sequences that the parser turns out to reject (lemma \<open>parse_fails_iff\<close>
  below): an unrecognised pair, more than one style token, or one style token while the
  last token is neither a style token nor an escape.\<close>

definition rejected :: "token list \<Rightarrow> bool" where
  "rejected ts =
     (list_ex is_unknown ts
      \<or> 1 < length (filter is_style ts)
      \<or> (length (filter is_style ts) = 1 \<and> \<not> is_style (last ts) \<and> last ts \<noteq> Escape))"

subsection \<open>More Python primitives\<close>

text \<open>\<open>str.upper\<close> on the letters of ASCII; characters are bytes here, and every other
  byte is left as it is.\<close>

definition upper_char :: "char \<Rightarrow> char" where
  "upper_char c =
     (case map_of (zip ''abcdefghijklmnopqrstuvwxyz'' ''ABCDEFGHIJKLMNOPQRSTUVWXYZ'') c of
        Some u \<Rightarrow> u
      | None \<Rightarrow> c)"

definition upper :: "string \<Rightarrow> string" where
  "upper s = map upper_char s"

text \<open>\<open>str(n)\<close> for a natural number, and \<open>'{:0wd}'.format(n)\<close>.\<close>

definition digit_char :: "nat \<Rightarrow> char" where
  "digit_char d = ''0123456789'' ! (d mod 10)"

function str_nat :: "nat \<Rightarrow> string" where
  "str_nat n = (if n < 10 then [digit_char n] else str_nat (n div 10) @ [digit_char (n mod 10)])"
  by pat_completeness auto
termination
  by (relation "measure id") auto

definition format_0d :: "nat \<Rightarrow> nat \<Rightarrow> string" where
  "format_0d w n = replicate (w - length (str_nat n)) CHR ''0'' @ str_nat n"

text \<open>\<open>os.path.join(a, b)\<close> on a POSIX system.\<close>

definition path_join :: "string \<Rightarrow> string \<Rightarrow> string" where
  "path_join a b =
     (if b \<noteq> [] \<and> hd b = CHR ''/'' then b
      else if a = [] \<or> last a = CHR ''/'' then a @ b
      else a @ ''/'' @ b)"

text \<open>\<open>os.path.basename\<close> and the extension that \<open>os.path.splitext\<close> returns (POSIX): the
  extension starts at the last dot of the last path component, leading dots of that
  component not counted. The program applies both to its input paths; they fix what
  it means for a path to have an extension.\<close>

definition basename :: "string \<Rightarrow> string" where
  "basename p = rev (takeWhile (\<lambda>c. c \<noteq> CHR ''/'') (rev p))"

definition splitext_ext :: "string \<Rightarrow> string" where
  "splitext_ext p =
     (let name = dropWhile (\<lambda>c. c = CHR ''.'') (basename p) in
      if CHR ''.'' \<in> set name
      then CHR ''.'' # rev (takeWhile (\<lambda>c. c \<noteq> CHR ''.'') (rev name))
      else [])"

text \<open>Assignment to a key of a dictionary kept as an association list in insertion
  order; \<open>map_of\<close> reads it.\<close>

fun dict_set :: "('k \<times> 'v) list \<Rightarrow> 'k \<Rightarrow> 'v \<Rightarrow> ('k \<times> 'v) list" where
  "dict_set [] k v = [(k, v)]"
| "dict_set ((k', v') # kvs) k v =
     (if k' = k then (k, v) # kvs else (k', v') # dict_set kvs k v)"

text \<open>The truth value of an optional string in a condition: \<open>None\<close> and the empty string
  are false.\<close>

fun truthy :: "string option \<Rightarrow> bool" where
  "truthy None = False"
| "truthy (Some s) = (s \<noteq> [])"

subsection \<open>Module globals\<close>

record globals =
  DEBUG :: bool
  jpeg_compression_quality :: int
  recompress_all_jpegs :: bool

definition module_globals :: globals where
  "module_globals = \<lparr>DEBUG = True, jpeg_compression_quality = 75, recompress_all_jpegs = False\<rparr>"

subsection \<open>Output path\<close>

text \<open>Lines 244 to 248: the output path, with \<open>.pdf\<close> added when \<open>find('.')\<close> is \<open>-1\<close>.\<close>

definition pdf_output_filepath :: "string \<Rightarrow> string" where
  "pdf_output_filepath output_file =
     (if str_find output_file CHR ''.'' = -1 then output_file @ ''.pdf'' else output_file)"

subsection \<open>The image library and the file system\<close>

text \<open>
  An opened image, as far as the program reads it: its \<open>format\<close>, its \<open>mode\<close> and the
  \<open>info\<close> dictionary with the keys \<open>dpi\<close>, \<open>jfif_density\<close> and \<open>jfif_unit\<close>. The values
  of \<open>info\<close> are numbers or pairs of numbers, which the program only copies.
\<close>

datatype info_value = Num int | Pair int int

record image =
  format :: string
  mode :: string
  info :: "(string \<times> info_value) list"

text \<open>One call of \<open>image.save\<close>: the path, the mode of the image that is saved (the
  opened image, or the one that \<open>image.convert\<close> returned) and the keyword arguments.\<close>

record save_call =
  save_path :: string
  save_mode :: string
  optimize :: bool
  quality :: int
  jfif_density :: info_value
  jfif_unit :: info_value
  dpi :: info_value

text \<open>The objects of a PDF document that the program reads and writes, and the
  document as far as the program touches it: the media boxes of its pages and the
  dictionary \<open>Root\<close>.\<close>

datatype pdfval =
    PInt int
  | PName string
  | PStr string
  | PArray "pdfval list"
  | PDict "(string \<times> pdfval) list"

record page =
  MediaBox :: "pdfval list"

record document =
  pages :: "page list"
  Root :: "(string \<times> pdfval) list"

datatype page_mode = PageMode_none | PageMode_thumbs

text \<open>
  The collaborators are parameters: \<open>open_image\<close> is \<open>Image.open\<close>; \<open>getsize\<close> is
  \<open>os.path.getsize\<close> on an input file; \<open>save\<close> is \<open>image.save\<close>, which raises an
  error or writes a file, and returns the size of the file written; \<open>convert\<close> is
  \<open>img2pdf.convert\<close> followed by \<open>pikepdf.open\<close>; \<open>save_pdf\<close> is \<open>pdf.save\<close>, with
  \<open>None\<close> for success. The temporary directory is new, so no input path lies in it.
\<close>

record env =
  open_image :: "string \<Rightarrow> error + image"
  getsize :: "string \<Rightarrow> int"
  save :: "save_call \<Rightarrow> error + int"
  convert :: "string list \<Rightarrow> string \<Rightarrow> string \<Rightarrow> page_mode \<Rightarrow> document"
  save_pdf :: "string \<Rightarrow> document \<Rightarrow> error option"

text \<open>\<open>os.path.getsize\<close> of the temporary file that a successful call of \<open>image.save\<close>
  wrote.\<close>

definition written_size :: "env \<Rightarrow> save_call \<Rightarrow> int" where
  "written_size e call = (case save e call of Inr n \<Rightarrow> n | Inl err \<Rightarrow> 0)"

subsection \<open>process_image\<close>

text \<open>The density of the source image: the \<open>try\<close> block of lines 205 to 212, where a
  \<open>KeyError\<close> keeps what was assigned before it.\<close>

definition source_density :: "image \<Rightarrow> info_value \<times> info_value" where
  "source_density img =
     (case map_of (info img) ''dpi'' of
        Some d \<Rightarrow> (d, Num 1)
      | None \<Rightarrow>
          if upper (format img) = ''JPEG'' then
            (case map_of (info img) ''jfif_density'' of
               None \<Rightarrow> (Pair 72 72, Num 1)
             | Some d \<Rightarrow>
                 (case map_of (info img) ''jfif_unit'' of
                    None \<Rightarrow> (d, Num 1)
                  | Some u \<Rightarrow> (d, u)))
          else (Pair 72 72, Num 1))"

text \<open>\<open>quality\<close> is an \<open>int\<close> here, so \<open>type(quality) is not int\<close> is false. The function
  returns the call of \<open>image.save\<close> it made, when that call raised no error; an error of
  \<open>Image.open\<close> or of \<open>image.save\<close> leaves the function.\<close>

definition process_image :: "globals \<Rightarrow> env \<Rightarrow> string \<Rightarrow> string \<Rightarrow> int \<Rightarrow> error + save_call" where
  "process_image g e input_filepath output_filepath quality_arg =
     (if \<not> (1 \<le> quality_arg \<and> quality_arg < 101) then
        Inl (ValueError ''JPEG compression quality must be an integer between 1 and 100 (1=worst, 100=best)'')
      else
        case open_image e input_filepath of
          Inl err \<Rightarrow> Inl err
        | Inr img \<Rightarrow>
            let (image_density, image_density_unit) = source_density img;
                mode' = (if mode img \<in> set [''1'', ''L'', ''P''] then ''RGB'' else mode img);
                call = \<lparr>save_path = output_filepath,
                        save_mode = mode',
                        optimize = True,
                        quality = jpeg_compression_quality g,
                        jfif_density = image_density,
                        jfif_unit = image_density_unit,
                        dpi = image_density\<rparr>
            in case save e call of
                 Inl err \<Rightarrow> Inl err
               | Inr n \<Rightarrow> Inr call)"

subsection \<open>The image-processing loop\<close>

datatype message =
    Processing string string
  | UnableToOpen string
  | NotAnImage string

record loop_state =
  image_files :: "string list"
  input_file_counter :: nat
  printed :: "message list"

definition loop_init :: loop_state where
  "loop_init = \<lparr>image_files = [], input_file_counter = 1, printed = []\<rparr>"

text \<open>Lines 321 to 323 and 345 to 347: the name of the temporary file of the image
  with counter \<open>k\<close>, among \<open>n\<close> input files.\<close>

definition temp_image_filename_index_length :: "nat \<Rightarrow> nat" where
  "temp_image_filename_index_length n = max 4 (length (str_nat n))"

definition temp_output_file :: "string \<Rightarrow> nat \<Rightarrow> nat \<Rightarrow> string" where
  "temp_output_file temp_dir n k =
     path_join temp_dir (''page'' @ format_0d (temp_image_filename_index_length n) k @ ''.jpg'')"

text \<open>The two \<open>except\<close> clauses of the loop body; any other exception leaves the loop
  and ends the program.\<close>

definition except_clauses :: "loop_state \<Rightarrow> string \<Rightarrow> error \<Rightarrow> error + loop_state" where
  "except_clauses st input_file err =
     (case err of
        FileNotFoundError \<Rightarrow> Inr (st\<lparr>printed := printed st @ [UnableToOpen input_file]\<rparr>)
      | UnidentifiedImageError \<Rightarrow> Inr (st\<lparr>printed := printed st @ [NotAnImage input_file]\<rparr>)
      | _ \<Rightarrow> Inl err)"

text \<open>One iteration of \<open>for input_file in args.input_files\<close>.\<close>

definition process_input ::
    "globals \<Rightarrow> env \<Rightarrow> string \<Rightarrow> nat \<Rightarrow> loop_state \<Rightarrow> string \<Rightarrow> error + loop_state" where
  "process_input g e temp_dir n st input_file =
     (case open_image e input_file of
        Inl err \<Rightarrow> except_clauses st input_file err
      | Inr img \<Rightarrow>
          let output_file = temp_output_file temp_dir n (input_file_counter st);
              st1 = st\<lparr>printed := printed st @ [Processing input_file output_file]\<rparr>
          in case process_image g e input_file output_file (jpeg_compression_quality g) of
               Inl err \<Rightarrow> except_clauses st1 input_file err
             | Inr call \<Rightarrow>
                 let chosen =
                       (if upper (format img) = ''JPEG''
                           \<and> recompress_all_jpegs g = False
                           \<and> getsize e input_file \<le> written_size e call
                        then input_file else output_file)
                 in Inr (st1\<lparr>image_files := image_files st1 @ [chosen],
                             input_file_counter := input_file_counter st1 + 1\<rparr>))"

fun process_files ::
    "globals \<Rightarrow> env \<Rightarrow> string \<Rightarrow> nat \<Rightarrow> loop_state \<Rightarrow> string list \<Rightarrow> error + loop_state" where
  "process_files g e temp_dir n st [] = Inr st"
| "process_files g e temp_dir n st (input_file # rest) =
     (case process_input g e temp_dir n st input_file of
        Inl err \<Rightarrow> Inl err
      | Inr st' \<Rightarrow> process_files g e temp_dir n st' rest)"

subsection \<open>Settings read from the command line\<close>

record settings =
  output_path :: string
  magnification :: "string option"
  viewer_panes :: page_mode
  author :: string
  title :: string
  page_numbering_prefix :: "string option"
  page_numbering_style :: "string option"
  first_page :: int

text \<open>Lines 296 to 304: \<open>args.page_numbering\<close> is \<open>None\<close> or a list of one string; a
  \<open>ValueError\<close> of the parser ends the program (\<open>None\<close> here).\<close>

definition page_numbering_setting ::
    "string option \<Rightarrow> (string option \<times> string option) option" where
  "page_numbering_setting arg =
     (case arg of
        None \<Rightarrow> Some (None, None)
      | Some page_format \<Rightarrow>
          (case parse_page_number_formatting_string page_format of
             Inl err \<Rightarrow> None
           | Inr (prefix, sty) \<Rightarrow> Some (Some prefix, sty)))"

subsection \<open>Additional processing of the PDF document\<close>

text \<open>\<open>xs[i]\<close> for \<open>i \<ge> 0\<close>, which raises \<open>IndexError\<close> out of range.\<close>

definition index :: "'a list \<Rightarrow> nat \<Rightarrow> error + 'a" where
  "index xs i = (if i < length xs then Inr (xs ! i) else Inl IndexError)"

text \<open>Lines 432 to 438: the dictionary \<open>page_label\<close>.\<close>

definition page_label :: "string option \<Rightarrow> string option \<Rightarrow> int \<Rightarrow> (string \<times> pdfval) list" where
  "page_label prefix sty first =
     (let l0 = [];
          l1 = (if truthy prefix then dict_set l0 ''/P'' (PStr (the prefix)) else l0);
          l2 = (if truthy sty then dict_set l1 ''/S'' (PName (the sty)) else l1);
          l3 = (if first > 1 then dict_set l2 ''/St'' (PInt first) else l2)
      in l3)"

text \<open>Lines 447 to 465: the array \<open>openaction_array\<close> for a magnification \<open>m\<close>.\<close>

definition openaction_array :: "int \<Rightarrow> pdfval \<Rightarrow> string \<Rightarrow> pdfval list" where
  "openaction_array page_to_open page_to_open_height m =
     (let arr = [PInt page_to_open, PName (''/'' @ m)] in
      if m = ''FitH'' then arr @ [page_to_open_height]
      else if m = ''FitV'' then arr @ [PInt 0]
      else arr)"

text \<open>Lines 421 to 465 on the opened document.\<close>

definition additional_processing :: "settings \<Rightarrow> document \<Rightarrow> error + document" where
  "additional_processing s pdf =
     (let page_to_open = 0 in
      case index (pages pdf) (nat page_to_open) of
        Inl err \<Rightarrow> Inl err
      | Inr pg \<Rightarrow>
          (case index (MediaBox pg) 2 of
             Inl err \<Rightarrow> Inl err
           | Inr page_to_open_width \<Rightarrow>
               (case index (MediaBox pg) 3 of
                  Inl err \<Rightarrow> Inl err
                | Inr page_to_open_height \<Rightarrow>
                    let label = page_label (page_numbering_prefix s) (page_numbering_style s)
                                  (first_page s);
                        root1 = dict_set (Root pdf) ''/PageLabels''
                                  (PDict [(''/Nums'', PArray [PInt 0, PDict label])]);
                        root2 = (if truthy (magnification s)
                                 then dict_set root1 ''/OpenAction''
                                        (PArray (openaction_array page_to_open page_to_open_height
                                                   (the (magnification s))))
                                 else root1)
                    in Inr (pdf\<lparr>Root := root2\<rparr>))))"

subsection \<open>The main program from the image loop on\<close>

text \<open>What the run did with its collaborators, in order: the call of \<open>img2pdf.convert\<close>
  and the call of \<open>pdf.save\<close>.\<close>

datatype event =
    Assemble "string list" string string page_mode
  | Persist string document

datatype ending =
    Written
  | NoImagesQuit
  | UnableToWriteQuit
  | Uncaught error

text \<open>Lines 468 to 473: only \<open>PermissionError\<close> is caught.\<close>

definition write_pdf :: "env \<Rightarrow> string \<Rightarrow> document \<Rightarrow> ending" where
  "write_pdf e path pdf =
     (case save_pdf e path pdf of
        None \<Rightarrow> Written
      | Some PermissionError \<Rightarrow> UnableToWriteQuit
      | Some err \<Rightarrow> Uncaught err)"

record outcome =
  ending :: ending
  events :: "event list"
  files :: "string list"

definition main_program :: "globals \<Rightarrow> env \<Rightarrow> string \<Rightarrow> settings \<Rightarrow> string list \<Rightarrow> outcome" where
  "main_program g e temp_dir s input_files =
     (case process_files g e temp_dir (length input_files) loop_init input_files of
        Inl err \<Rightarrow> \<lparr>ending = Uncaught err, events = [], files = []\<rparr>
      | Inr st \<Rightarrow>
          if image_files st \<noteq> [] then
            (let ev1 = Assemble (image_files st) (author s) (title s) (viewer_panes s);
                 pdf = convert e (image_files st) (author s) (title s) (viewer_panes s)
             in case additional_processing s pdf of
                  Inl err \<Rightarrow> \<lparr>ending = Uncaught err, events = [ev1], files = image_files st\<rparr>
                | Inr pdf' \<Rightarrow>
                    \<lparr>ending = write_pdf e (output_path s) pdf',
                     events = [ev1, Persist (output_path s) pdf'],
                     files = image_files st\<rparr>)
          else \<lparr>ending = NoImagesQuit, events = [], files = image_files st\<rparr>)"

subsection \<open>A concrete environment\<close>

definition png_image :: image where
  "png_image = \<lparr>format = ''PNG'', mode = ''P'', info = [(''dpi'', Pair 96 96)]\<rparr>"

definition jpeg_image :: image where
  "jpeg_image = \<lparr>format = ''JPEG'', mode = ''RGB'',
                 info = [(''jfif_density'', Pair 300 300), (''jfif_unit'', Num 1)]\<rparr>"

definition rgba_image :: image where
  "rgba_image = \<lparr>format = ''PNG'', mode = ''RGBA'', info = []\<rparr>"

text \<open>The JPEG writer of the image library takes the modes \<open>1\<close>, \<open>L\<close>, \<open>RGB\<close>, \<open>RGBX\<close>,
  \<open>CMYK\<close> and \<open>YCbCr\<close>, and raises \<open>OSError\<close> (cannot write mode as JPEG) for any other.\<close>

definition jpeg_save :: "int \<Rightarrow> save_call \<Rightarrow> error + int" where
  "jpeg_save n call =
     (if save_mode call \<in> set [''1'', ''L'', ''RGB'', ''RGBX'', ''CMYK'', ''YCbCr'']
      then Inr n else Inl OSError)"

definition one_page_document :: document where
  "one_page_document =
     \<lparr>pages = [\<lparr>MediaBox = [PInt 0, PInt 0, PInt 595, PInt 842]\<rparr>], Root = []\<rparr>"

definition example_env :: env where
  "example_env =
     \<lparr>open_image = (\<lambda>p. if p = ''a.png'' then Inr png_image
                        else if p = ''b.jpg'' then Inr jpeg_image
                        else if p = ''c.png'' then Inr rgba_image
                        else if p = ''notes.txt'' then Inl UnidentifiedImageError
                        else Inl FileNotFoundError),
      getsize = (\<lambda>p. if p = ''b.jpg'' then 1000 else 5000),
      save = jpeg_save 2000,
      convert = (\<lambda>fs a t m. one_page_document),
      save_pdf = (\<lambda>p d. None)\<rparr>"

definition example_settings :: settings where
  "example_settings =
     \<lparr>output_path = ''out.pdf'', magnification = None, viewer_panes = PageMode_none,
      author = [], title = [], page_numbering_prefix = Some [],
      page_numbering_style = Some ''/D'', first_page = 1\<rparr>"

section \<open>The format-string parser\<close>

subsection \<open>Auxiliary facts about the scan\<close>

lemma scan_no_percent:
  "CHR ''%'' \<notin> set s \<Longrightarrow> \<not> percent_char_read st \<Longrightarrow> scan s i st = Inr st"
  by (induction s arbitrary: i) auto

lemma end_of_pair_no_style:
  "style st = None \<Longrightarrow> \<not> percent_char_read st \<Longrightarrow>
   end_of_pair i (st\<lparr>percent_char_read := True\<rparr>) = st"
  by (simp add: end_of_pair_def)

text \<open>Literal text and \<open>%%\<close> escapes leave the state of the scan as it was, as long as no
  style has been read.\<close>

lemma scan_text:
  "\<forall>t \<in> set (tokens p). is_text t \<Longrightarrow> style st = None \<Longrightarrow> \<not> percent_char_read st \<Longrightarrow>
   scan (p @ r) i st = scan r (i + int (length p)) st"
proof (induction p arbitrary: i rule: tokens.induct)
  case 1
  then show ?case by simp
next
  case (2 c)
  then show ?case by (simp split: if_splits)
next
  case (3 c d cs)
  show ?case
  proof (cases "c = CHR ''%''")
    case True
    with 3 have d: "d = CHR ''%''" and rest: "\<forall>t \<in> set (tokens cs). is_text t"
      by (auto split: if_splits)
    from 3 True d rest have "scan (cs @ r) (i + 2) st = scan r (i + 2 + int (length cs)) st"
      by simp
    with True d 3(4,5) show ?thesis
      by (simp add: end_of_pair_no_style add.assoc)
  next
    case False
    with 3 have rest: "\<forall>t \<in> set (tokens (d # cs)). is_text t" by simp
    from 3(2) [OF False rest 3(4) 3(5)] False 3(5) show ?thesis
      by (simp add: add.assoc)
  qed
qed

text \<open>After literal text and escapes, the tokens of what follows are read on their own.\<close>

lemma tokens_text_append:
  "\<forall>t \<in> set (tokens p). is_text t \<Longrightarrow> tokens (p @ r) = tokens p @ tokens r"
proof (induction p rule: tokens.induct)
  case 1 then show ?case by simp
next
  case (2 c)
  then show ?case by (cases r) (auto split: if_splits)
next
  case (3 c d cs)
  then show ?case by (auto split: if_splits)
qed

lemma parse_style_at_end:
  assumes "\<forall>t \<in> set (tokens p). is_text t" and "c \<in> set ''DRrAa''"
  shows "parse_page_number_formatting_string (p @ [CHR ''%'', c]) = Inr (p, Some (''/'' @ [c]))"
proof -
  have "scan (p @ [CHR ''%'', c]) 0 scan_init = scan [CHR ''%'', c] (int (length p)) scan_init"
    using scan_text [OF assms(1), of scan_init "[CHR ''%'', c]" 0] by (simp add: scan_init_def)
  also have "\<dots> = Inr \<lparr>style = Some (''/'' @ [c]), page_style_pos = Some (int (length p)),
                       percent_char_read = False\<rparr>"
    using assms(2) by (auto simp: scan_init_def end_of_pair_def)
  finally show ?thesis
    by (simp add: parse_page_number_formatting_string_def slice_to_def)
qed

lemma parse_no_percent:
  assumes "CHR ''%'' \<notin> set s"
  shows "parse_page_number_formatting_string s = Inr (s, None)"
  using scan_no_percent [OF assms, of scan_init 0]
  by (simp add: parse_page_number_formatting_string_def slice_to_def scan_init_def)

lemma tokens_Nil_iff: "(tokens s = []) = (s = [])"
  by (induction s rule: tokens.induct) auto

lemma tokens_lit_cons:
  "c \<noteq> CHR ''%'' \<Longrightarrow> tokens (c # r) = Lit c # tokens r"
  by (cases r) simp_all

text \<open>A format string without an unrecognised pair whose only style token is its last
  token is literal text and escapes followed by that token.\<close>

lemma style_at_end_decompose:
  "\<not> list_ex is_unknown (tokens s) \<Longrightarrow> length (filter is_style (tokens s)) = 1 \<Longrightarrow>
   last (tokens s) = Style c \<Longrightarrow>
   \<exists>p. s = p @ [CHR ''%'', c] \<and> (\<forall>t \<in> set (tokens p). is_text t) \<and> c \<in> set ''DRrAa''"
proof (induction s rule: tokens.induct)
  case 1
  then show ?case by simp
next
  case (2 x)
  then show ?case by (simp split: if_splits)
next
  case (3 x d cs)
  show ?case
  proof (cases "x = CHR ''%''")
    case False
    with 3(3,4,5) have p: "\<not> list_ex is_unknown (tokens (d # cs))"
        "length (filter is_style (tokens (d # cs))) = 1"
        "last (tokens (d # cs)) = Style c"
      by (simp_all add: tokens_Nil_iff)
    from 3(2) [OF False p] obtain p' where
      p': "d # cs = p' @ [CHR ''%'', c]" "\<forall>t \<in> set (tokens p'). is_text t" "c \<in> set ''DRrAa''"
      by blast
    have "x # d # cs = (x # p') @ [CHR ''%'', c]"
      using p'(1) by simp
    moreover have "\<forall>t \<in> set (tokens (x # p')). is_text t"
      using p'(2) by (simp add: tokens_lit_cons [OF False])
    ultimately show ?thesis
      using p'(3) by blast
  next
    case True
    show ?thesis
    proof (cases "d = CHR ''%''")
      case d: True
      from True d 3(4) have ne: "tokens cs \<noteq> []" by auto
      with True d 3(3,4,5) have p: "\<not> list_ex is_unknown (tokens cs)"
          "length (filter is_style (tokens cs)) = 1"
          "last (tokens cs) = Style c"
        by simp_all
      from 3(1) [OF True p] obtain p' where
        p': "cs = p' @ [CHR ''%'', c]" "\<forall>t \<in> set (tokens p'). is_text t" "c \<in> set ''DRrAa''"
        by blast
      have "x # d # cs = (CHR ''%'' # CHR ''%'' # p') @ [CHR ''%'', c]"
        using p'(1) True d by simp
      moreover have "\<forall>t \<in> set (tokens (CHR ''%'' # CHR ''%'' # p')). is_text t"
        using p'(2) by simp
      ultimately show ?thesis
        using p'(3) by blast
    next
      case nd: False
      with True 3(3) have sty: "d \<in> set ''DRrAa''"
        by (auto split: if_splits)
      have toks: "tokens (x # d # cs) = Style d # tokens cs"
        using True nd sty by simp
      from 3(4) have none: "filter is_style (tokens cs) = []"
        unfolding toks by simp
      have "tokens cs = []"
      proof (rule ccontr)
        assume ne: "tokens cs \<noteq> []"
        with 3(5) have "last (tokens cs) = Style c"
          unfolding toks by simp
        with ne have "Style c \<in> set (tokens cs)"
          by (metis last_in_set)
        with none show False
          by (auto simp: filter_empty_conv)
      qed
      then have cs: "cs = []" by (simp add: tokens_Nil_iff)
      with 3(5) have "d = c" unfolding toks by simp
      with cs True sty show ?thesis by simp
    qed
  qed
qed

subsection \<open>The escape \<open>%%\<close>\<close>

text \<open>
  Claim C2. The escape \<open>%%\<close> should contribute one literal \<open>%\<close> to the returned prefix,
  so that the format string \<open>100%%\<close> gives the prefix \<open>100%\<close> and no style. The parser
  cuts the prefix out of the input as it is: for \<open>100%%\<close> it returns the prefix \<open>100%%\<close>,
  both percent signs kept.
\<close>

theorem parse_escape_keeps_both_percent_signs:
  "parse_page_number_formatting_string ''100%%'' = Inr (''100%%'', None)"
  by (simp add: parse_page_number_formatting_string_def scan_init_def end_of_pair_def slice_to_def)

subsection \<open>A style token at the end, and no token at all\<close>

text \<open>
  Claim C5. For every valid format string (one without an unrecognised pair) that
  contains exactly one recognised style token and has it as its final two characters
  \<open>%c\<close>, the parser returns the text before the token as the prefix and \<open>/c\<close> as the
  style; and for every input \<open>s'\<close> without a \<open>%\<close> it returns \<open>s'\<close> as the prefix and no
  style.
\<close>

theorem parse_style_token_at_end:
  "(\<not> list_ex is_unknown (tokens s) \<and> length (filter is_style (tokens s)) = 1
      \<and> last (tokens s) = Style c \<longrightarrow>
      drop (length s - 2) s = [CHR ''%'', c]
      \<and> parse_page_number_formatting_string s = Inr (take (length s - 2) s, Some (''/'' @ [c])))
   \<and> (CHR ''%'' \<notin> set s' \<longrightarrow> parse_page_number_formatting_string s' = Inr (s', None))"
proof (intro conjI impI)
  assume "\<not> list_ex is_unknown (tokens s) \<and> length (filter is_style (tokens s)) = 1
      \<and> last (tokens s) = Style c"
  then obtain p where p: "s = p @ [CHR ''%'', c]" "\<forall>t \<in> set (tokens p). is_text t"
      "c \<in> set ''DRrAa''"
    using style_at_end_decompose [of s c] by blast
  from p(1) show "drop (length s - 2) s = [CHR ''%'', c]" by simp
  from parse_style_at_end [OF p(2,3)] p(1)
  show "parse_page_number_formatting_string s = Inr (take (length s - 2) s, Some (''/'' @ [c]))"
    by simp
next
  assume "CHR ''%'' \<notin> set s'"
  then show "parse_page_number_formatting_string s' = Inr (s', None)"
    by (rule parse_no_percent)
qed

theorem parse_style_token_at_end_witness:
  "tokens ''A-%%%D'' = [Lit CHR ''A'', Lit CHR ''-'', Escape, Style CHR ''D'']
   \<and> parse_page_number_formatting_string ''A-%%%D'' = Inr (''A-%%'', Some ''/D'')
   \<and> parse_page_number_formatting_string ''page '' = Inr (''page '', None)"
proof -
  have h: "\<not> list_ex is_unknown (tokens ''A-%%%D'')
      \<and> length (filter is_style (tokens ''A-%%%D'')) = 1
      \<and> last (tokens ''A-%%%D'') = Style CHR ''D''"
    by simp
  have h': "CHR ''%'' \<notin> set ''page ''" by simp
  have t: "tokens ''A-%%%D'' = [Lit CHR ''A'', Lit CHR ''-'', Escape, Style CHR ''D'']"
    by simp
  from parse_style_token_at_end [of "''A-%%%D''" "CHR ''D''" "''page ''"] h h' t
  show ?thesis by simp
qed

subsection \<open>A percent sign at the end\<close>

text \<open>
  Claim C10, as stated: every format string whose final character is a single
  unescaped \<open>%\<close> is accepted and returned whole as the prefix. The string \<open>%D%\<close> ends
  in a single unescaped \<open>%\<close>, and the parser rejects it, because the style token
  \<open>%D\<close> is not at the end.
\<close>

theorem parse_trailing_percent_counterexample:
  "tokens ''%D%'' = [Style CHR ''D'', Dangling]
   \<and> parse_page_number_formatting_string ''%D%''
       = Inl (ValueError ''no suffixes are permitted in the page formatting string'')"
  by (simp add: parse_page_number_formatting_string_def scan_init_def end_of_pair_def)

text \<open>
  Claim C10, amended: for every format string that consists of literal characters and
  \<open>%%\<close> escapes \<open>p\<close> followed by one final unescaped \<open>%\<close> (no style token and no
  unrecognised pair before it), the parser does not fail: it returns the whole input,
  the final \<open>%\<close> included, as the prefix, and no style.
\<close>

theorem parse_trailing_percent:
  assumes "\<forall>t \<in> set (tokens p). is_text t"
  shows "tokens (p @ ''%'') = tokens p @ [Dangling]
         \<and> parse_page_number_formatting_string (p @ ''%'') = Inr (p @ ''%'', None)"
proof -
  have "scan (p @ ''%'') 0 scan_init = scan ''%'' (int (length p)) scan_init"
    using scan_text [OF assms, of scan_init "''%''" 0] by (simp add: scan_init_def)
  also have "\<dots> = Inr (scan_init\<lparr>percent_char_read := True\<rparr>)"
    by (simp add: scan_init_def)
  finally have "parse_page_number_formatting_string (p @ ''%'') = Inr (p @ ''%'', None)"
    by (simp add: parse_page_number_formatting_string_def slice_to_def scan_init_def)
  then show ?thesis
    using tokens_text_append [OF assms, of "''%''"] by simp
qed

theorem parse_trailing_percent_witness:
  "tokens ''abc'' = [Lit CHR ''a'', Lit CHR ''b'', Lit CHR ''c'']
   \<and> parse_page_number_formatting_string ''abc%'' = Inr (''abc%'', None)"
proof -
  have h: "\<forall>t \<in> set (tokens ''abc''). is_text t" by simp
  from parse_trailing_percent [OF h] h show ?thesis by simp
qed

subsection \<open>When the parser fails\<close>

text \<open>
  Claim C6. The parser should fail whenever a style token is not the final two
  characters of the string, that is, whenever a suffix follows it. In \<open>%D%%\<close> the style
  token \<open>%D\<close> is followed by the suffix \<open>%%\<close>, and the parser does not fail: the escape
  moves the recorded position of the style to itself, and the result is the prefix
  \<open>%D\<close> with the style \<open>/D\<close>. The three inputs the claim names do fail.
\<close>

theorem parse_suffix_after_style_accepted:
  "tokens ''%D%%'' = [Style CHR ''D'', Escape]
   \<and> parse_page_number_formatting_string ''%D%%'' = Inr (''%D'', Some ''/D'')"
  by (simp add: parse_page_number_formatting_string_def scan_init_def end_of_pair_def slice_to_def)

text \<open>An unrecognised pair before a final \<open>%\<close> is rejected as well.\<close>

lemma parse_unknown_before_trailing_percent:
  "parse_page_number_formatting_string ''%z%'' = Inl (ValueError ''invalid formatting style %z'')"
  by (simp add: parse_page_number_formatting_string_def scan_init_def end_of_pair_def)

lemma parse_named_failures:
  "parse_page_number_formatting_string ''%D-x''
     = Inl (ValueError ''no suffixes are permitted in the page formatting string'')"
  "parse_page_number_formatting_string ''%D%r''
     = Inl (ValueError ''only one page numbering style may be specified in the formatting string'')"
  "parse_page_number_formatting_string ''%z'' = Inl (ValueError ''invalid formatting style %z'')"
  by (simp_all add: parse_page_number_formatting_string_def scan_init_def end_of_pair_def)

subsection \<open>The exact set of rejected format strings\<close>

lemma scan_after_style_fails:
  "style st \<noteq> None \<Longrightarrow> \<not> percent_char_read st \<Longrightarrow>
   list_ex (\<lambda>t. is_unknown t \<or> is_style t) (tokens r) \<Longrightarrow> isl (scan r i st)"
proof (induction r arbitrary: i st rule: tokens.induct)
  case 1
  then show ?case by simp
next
  case (2 c)
  then show ?case by (simp split: if_splits)
next
  case (3 c d cs)
  show ?case
  proof (cases "c = CHR ''%''")
    case True
    show ?thesis
    proof (cases "d = CHR ''%''")
      case d: True
      have "isl (scan cs (i + 1 + 1) (end_of_pair (i + 1) (st\<lparr>percent_char_read := True\<rparr>)))"
        using 3(1) [OF True, of "end_of_pair (i + 1) (st\<lparr>percent_char_read := True\<rparr>)" "i + 1 + 1"]
          3(3,4,5) True d
        by (simp add: end_of_pair_def)
      with True d 3(4) show ?thesis by simp
    next
      case False
      with True 3(3,4) show ?thesis by auto
    qed
  next
    case False
    with 3 show ?thesis by simp
  qed
qed

lemma scan_after_style_succeeds:
  "style st = Some x \<Longrightarrow> \<not> percent_char_read st \<Longrightarrow> page_style_pos st = Some k \<Longrightarrow>
   k \<le> i - 2 \<Longrightarrow> \<not> list_ex (\<lambda>t. is_unknown t \<or> is_style t) (tokens r) \<Longrightarrow>
   \<exists>st' k'. scan r i st = Inr st' \<and> style st' = Some x \<and> page_style_pos st' = Some k'
     \<and> k' \<le> i + int (length r) - 2
     \<and> ((k' = i + int (length r) - 2)
          = ((r = [] \<and> k = i - 2) \<or> (r \<noteq> [] \<and> last (tokens r) = Escape)))"
proof (induction r arbitrary: i st k rule: tokens.induct)
  case 1
  then show ?case by simp
next
  case (2 c)
  then show ?case by (auto split: if_splits)
next
  case (3 c d cs)
  show ?case
  proof (cases "c = CHR ''%''")
    case True
    with 3(7) have d: "d = CHR ''%''"
      and rest: "\<not> list_ex (\<lambda>t. is_unknown t \<or> is_style t) (tokens cs)"
      by (auto split: if_splits)
    let ?st2 = "end_of_pair (i + 1) (st\<lparr>percent_char_read := True\<rparr>)"
    have st2: "style ?st2 = Some x" "\<not> percent_char_read ?st2" "page_style_pos ?st2 = Some i"
      using 3(3) by (simp_all add: end_of_pair_def)
    have step: "scan (c # d # cs) i st = scan cs (i + 2) ?st2"
      using True d 3(4) by (simp add: add.commute)
    from 3(1) [OF True st2(1,2,3) _ rest, of "i + 2"] obtain st' k' where
      r: "scan cs (i + 2) ?st2 = Inr st'" "style st' = Some x" "page_style_pos st' = Some k'"
        "k' \<le> i + 2 + int (length cs) - 2"
        "(k' = i + 2 + int (length cs) - 2)
          = ((cs = [] \<and> i = i + 2 - 2) \<or> (cs \<noteq> [] \<and> last (tokens cs) = Escape))"
      by auto
    have last: "(last (tokens (c # d # cs)) = Escape)
         = (cs = [] \<or> (cs \<noteq> [] \<and> last (tokens cs) = Escape))"
      using True d by (auto simp: tokens_Nil_iff)
    show ?thesis
      apply (rule exI [of _ st'], rule exI [of _ k'])
      using step r last by auto
  next
    case False
    with 3(7) have rest: "\<not> list_ex (\<lambda>t. is_unknown t \<or> is_style t) (tokens (d # cs))"
      by simp
    have step: "scan (c # d # cs) i st = scan (d # cs) (i + 1) st"
      using False 3(4) by simp
    from 3(2) [OF False 3(3,4,5) _ rest, of "i + 1"] 3(6) obtain st' k' where
      r: "scan (d # cs) (i + 1) st = Inr st'" "style st' = Some x" "page_style_pos st' = Some k'"
        "k' \<le> i + 1 + int (length (d # cs)) - 2"
        "(k' = i + 1 + int (length (d # cs)) - 2)
          = ((d # cs = [] \<and> k = i + 1 - 2) \<or> (d # cs \<noteq> [] \<and> last (tokens (d # cs)) = Escape))"
      by auto
    have last: "last (tokens (c # d # cs)) = last (tokens (d # cs))"
      using False by (simp add: tokens_Nil_iff)
    show ?thesis
      apply (rule exI [of _ st'], rule exI [of _ k'])
      using step r last by auto
  qed
qed


lemma scan_step_lit:
  "c \<noteq> CHR ''%'' \<Longrightarrow> \<not> percent_char_read st \<Longrightarrow> scan (c # r) i st = scan r (i + 1) st"
  by simp

lemma scan_step_escape:
  "style st = None \<Longrightarrow> \<not> percent_char_read st \<Longrightarrow>
   scan (CHR ''%'' # CHR ''%'' # r) i st = scan r (i + 2) st"
  by (simp add: end_of_pair_no_style add.commute)

lemma scan_step_style:
  "style st = None \<Longrightarrow> \<not> percent_char_read st \<Longrightarrow> d \<in> set ''DRrAa'' \<Longrightarrow>
   scan (CHR ''%'' # d # r) i st
     = scan r (i + 2) (st\<lparr>style := Some (''/'' @ [d]), page_style_pos := Some i,
                          percent_char_read := False\<rparr>)"
  by (auto simp: end_of_pair_def add.commute)

lemma scan_step_unknown:
  "style st = None \<Longrightarrow> \<not> percent_char_read st \<Longrightarrow> d \<noteq> CHR ''%'' \<Longrightarrow>
   d \<notin> set ''DRrAa'' \<Longrightarrow> isl (scan (CHR ''%'' # d # r) i st)"
  by simp

lemma scan_before_style_fails:
  "style st = None \<Longrightarrow> \<not> percent_char_read st \<Longrightarrow>
   list_ex is_unknown (tokens s) \<or> 1 < length (filter is_style (tokens s)) \<Longrightarrow>
   isl (scan s i st)"
proof (induction s arbitrary: i rule: tokens.induct)
  case 1
  then show ?case by simp
next
  case (2 c)
  then show ?case by (simp split: if_splits)
next
  case (3 c d cs)
  show ?case
  proof (cases "c = CHR ''%''")
    case False
    with 3(5) have "list_ex is_unknown (tokens (d # cs))
        \<or> 1 < length (filter is_style (tokens (d # cs)))"
      by simp
    from 3(2) [OF False 3(3,4) this, of "i + 1"] show ?thesis
      unfolding scan_step_lit [OF False 3(4)] .
  next
    case True
    show ?thesis
    proof (cases "d = CHR ''%''")
      case d: True
      with True 3(5) have "list_ex is_unknown (tokens cs)
        \<or> 1 < length (filter is_style (tokens cs))"
        by simp
      from 3(1) [OF True 3(3,4) this, of "i + 2"] show ?thesis
        unfolding True d scan_step_escape [OF 3(3,4)] .
    next
      case nd: False
      show ?thesis
      proof (cases "d \<in> set ''DRrAa''")
        case False
        from scan_step_unknown [OF 3(3,4) nd False] show ?thesis
          unfolding True .
      next
        case sty: True
        let ?st2 = "st\<lparr>style := Some (''/'' @ [d]), page_style_pos := Some i,
                       percent_char_read := False\<rparr>"
        from True nd sty 3(5) have "list_ex is_unknown (tokens cs) \<or> filter is_style (tokens cs) \<noteq> []"
          by simp
        then have bad: "list_ex (\<lambda>t. is_unknown t \<or> is_style t) (tokens cs)"
          by (auto simp: list_ex_iff filter_empty_conv)
        have "style ?st2 \<noteq> None" "\<not> percent_char_read ?st2"
          using 3(4) by simp_all
        from scan_after_style_fails [OF this bad, of "i + 2"] show ?thesis
          unfolding True scan_step_style [OF 3(3,4) sty] .
      qed
    qed
  qed
qed

lemma scan_no_style:
  "style st = None \<Longrightarrow> \<not> percent_char_read st \<Longrightarrow>
   \<not> list_ex is_unknown (tokens s) \<Longrightarrow> filter is_style (tokens s) = [] \<Longrightarrow>
   \<exists>st'. scan s i st = Inr st' \<and> page_style_pos st' = page_style_pos st \<and> style st' = None"
proof (induction s arbitrary: i rule: tokens.induct)
  case 1
  then show ?case by simp
next
  case (2 c)
  then show ?case by simp
next
  case (3 c d cs)
  show ?case
  proof (cases "c = CHR ''%''")
    case False
    with 3(5,6) have "\<not> list_ex is_unknown (tokens (d # cs))" "filter is_style (tokens (d # cs)) = []"
      by simp_all
    from 3(2) [OF False 3(3,4) this, of "i + 1"] show ?thesis
      unfolding scan_step_lit [OF False 3(4)] .
  next
    case True
    with 3(5,6) have d: "d = CHR ''%''"
      by (auto split: if_splits)
    with True 3(5,6) have "\<not> list_ex is_unknown (tokens cs)" "filter is_style (tokens cs) = []"
      by simp_all
    from 3(1) [OF True 3(3,4) this, of "i + 2"] show ?thesis
      unfolding True d scan_step_escape [OF 3(3,4)] .
  qed
qed

lemma scan_one_style:
  "style st = None \<Longrightarrow> \<not> percent_char_read st \<Longrightarrow>
   \<not> list_ex is_unknown (tokens s) \<Longrightarrow> length (filter is_style (tokens s)) = 1 \<Longrightarrow>
   e = i + int (length s) \<Longrightarrow>
   \<exists>st' k'. scan s i st = Inr st' \<and> page_style_pos st' = Some k'
      \<and> ((k' = e - 2) = (is_style (last (tokens s)) \<or> last (tokens s) = Escape))"
proof (induction s arbitrary: i rule: tokens.induct)
  case 1
  then show ?case by simp
next
  case (2 c)
  then show ?case by (simp split: if_splits)
next
  case (3 c d cs)
  show ?case
  proof (cases "c = CHR ''%''")
    case False
    with 3(5,6) have p: "\<not> list_ex is_unknown (tokens (d # cs))"
        "length (filter is_style (tokens (d # cs))) = 1"
      by simp_all
    have e: "e = i + 1 + int (length (d # cs))"
      using 3(7) by simp
    have last: "last (tokens (c # d # cs)) = last (tokens (d # cs))"
      using False by (simp add: tokens_Nil_iff)
    from 3(2) [OF False 3(3,4) p e] show ?thesis
      unfolding scan_step_lit [OF False 3(4)] last .
  next
    case True
    show ?thesis
    proof (cases "d = CHR ''%''")
      case d: True
      with True 3(5,6) have p: "\<not> list_ex is_unknown (tokens cs)"
          "length (filter is_style (tokens cs)) = 1"
        by simp_all
      have e: "e = i + 2 + int (length cs)"
        using 3(7) by simp
      from p(2) have "tokens cs \<noteq> []" by auto
      then have last: "last (tokens (CHR ''%'' # CHR ''%'' # cs)) = last (tokens cs)"
        by simp
      from 3(1) [OF True 3(3,4) p e] show ?thesis
        unfolding True d scan_step_escape [OF 3(3,4)] last .
    next
      case nd: False
      with True 3(5) have sty: "d \<in> set ''DRrAa''"
        by (auto split: if_splits)
      let ?st2 = "st\<lparr>style := Some (''/'' @ [d]), page_style_pos := Some i,
                       percent_char_read := False\<rparr>"
      have toks: "tokens (CHR ''%'' # d # cs) = Style d # tokens cs"
        using nd sty by simp
      from True nd sty 3(5,6) have none: "\<not> list_ex is_unknown (tokens cs)"
          "filter is_style (tokens cs) = []"
        by simp_all
      then have good: "\<not> list_ex (\<lambda>t. is_unknown t \<or> is_style t) (tokens cs)"
        by (auto simp: list_ex_iff filter_empty_conv)
      have st2: "style ?st2 = Some (''/'' @ [d])" "\<not> percent_char_read ?st2"
          "page_style_pos ?st2 = Some i" "i \<le> i + 2 - 2"
        using 3(4) by simp_all
      from scan_after_style_succeeds [OF st2 good] obtain st' k' where
        r: "scan cs (i + 2) ?st2 = Inr st'" "page_style_pos st' = Some k'"
          "(k' = i + 2 + int (length cs) - 2)
             = ((cs = [] \<and> i = i + 2 - 2) \<or> (cs \<noteq> [] \<and> last (tokens cs) = Escape))"
        by blast
      have e: "e - 2 = i + 2 + int (length cs) - 2"
        using 3(7) by simp
      have last: "(is_style (last (Style d # tokens cs)) \<or> last (Style d # tokens cs) = Escape)
              = ((cs = [] \<and> i = i + 2 - 2) \<or> (cs \<noteq> [] \<and> last (tokens cs) = Escape))"
      proof (cases "cs = []")
        case True
        then show ?thesis by simp
      next
        case False
        then have ne: "tokens cs \<noteq> []" by (simp add: tokens_Nil_iff)
        with none(2) have "\<not> is_style (last (tokens cs))"
          by (metis filter_empty_conv last_in_set)
        with False ne show ?thesis by simp
      qed
      show ?thesis
        unfolding True scan_step_style [OF 3(3,4) sty] toks e last
        using r by blast
    qed
  qed
qed

lemma parse_fails_iff:
  "isl (parse_page_number_formatting_string s) = rejected (tokens s)"
proof -
  have init: "style scan_init = None" "\<not> percent_char_read scan_init"
    by (simp_all add: scan_init_def)
  have pos0: "page_style_pos scan_init = None"
    by (simp add: scan_init_def)
  show ?thesis
  proof (cases "list_ex is_unknown (tokens s) \<or> 1 < length (filter is_style (tokens s))")
    case True
    from scan_before_style_fails [OF init True, of 0]
    have "isl (parse_page_number_formatting_string s)"
      by (auto simp: parse_page_number_formatting_string_def isl_def)
    with True show ?thesis by (auto simp: rejected_def)
  next
    case False
    then have nu: "\<not> list_ex is_unknown (tokens s)"
      and le: "length (filter is_style (tokens s)) \<le> 1"
      by auto
    show ?thesis
    proof (cases "filter is_style (tokens s) = []")
      case True
      from scan_no_style [OF init nu True, of 0] pos0 obtain st' where
        "scan s 0 scan_init = Inr st'" "page_style_pos st' = None"
        by auto
      with True nu show ?thesis
        by (simp add: parse_page_number_formatting_string_def rejected_def)
    next
      case ne: False
      with le have one: "length (filter is_style (tokens s)) = 1"
        by (cases "filter is_style (tokens s)") auto
      from scan_one_style [OF init nu one, of "int (length s)" 0] obtain st' k' where
        k': "scan s 0 scan_init = Inr st'" "page_style_pos st' = Some k'"
          "(k' = int (length s) - 2) = (is_style (last (tokens s)) \<or> last (tokens s) = Escape)"
        by auto
      with nu one show ?thesis
        by (auto simp: parse_page_number_formatting_string_def rejected_def Let_def)
    qed
  qed
qed

text \<open>So every failure of the parser is one of the cases of claim C6; the inputs that
  the claim rejects and the parser accepts are those with one style token, not at the
  end, whose last token is an escape.\<close>

lemma parse_failure_cases:
  assumes "isl (parse_page_number_formatting_string s)"
  shows "list_ex is_unknown (tokens s)
         \<or> 1 < length (filter is_style (tokens s))
         \<or> (length (filter is_style (tokens s)) = 1 \<and> \<not> is_style (last (tokens s)))"
  using assms unfolding parse_fails_iff rejected_def by blast

section \<open>Recompression and selection\<close>

subsection \<open>Auxiliary facts about the loop\<close>

lemma process_image_saved:
  assumes "process_image g e input_file out q = Inr call"
  shows "save e call = Inr (written_size e call) \<and> save_path call = out
         \<and> quality call = jpeg_compression_quality g"
  using assms
  by (auto simp: process_image_def written_size_def Let_def
      split: if_splits sum.splits prod.splits)


lemma process_input_opened:
  assumes "open_image e p = Inr img"
    and "process_image g e p (temp_output_file temp_dir n (input_file_counter st))
           (jpeg_compression_quality g) = Inr call"
  shows "\<exists>st'.
           process_input g e temp_dir n st p = Inr st'
           \<and> image_files st' = image_files st @
               [if upper (format img) = ''JPEG'' \<and> \<not> recompress_all_jpegs g
                   \<and> getsize e p \<le> written_size e call
                then p else temp_output_file temp_dir n (input_file_counter st)]
           \<and> input_file_counter st' = input_file_counter st + 1"
  using assms by (simp add: process_input_def Let_def)



lemma b_jpg_call:
  "process_image module_globals example_env ''b.jpg''
     (temp_output_file ''/tmp/t'' 2 (input_file_counter loop_init))
     (jpeg_compression_quality module_globals)
   = Inr \<lparr>save_path = ''/tmp/t/page0001.jpg'', save_mode = ''RGB'', optimize = True,
          quality = 75, jfif_density = Pair 300 300, jfif_unit = Num 1, dpi = Pair 300 300\<rparr>"
  by code_simp

subsection \<open>The quality of the recompressed image\<close>

text \<open>
  Claim C3. \<open>process_image\<close> should encode at the \<open>quality\<close> it is given. It checks that
  argument and then passes the module's \<open>jpeg_compression_quality\<close> to \<open>image.save\<close>:
  called with quality 50 while the module value is 75, it encodes at 75.
\<close>

theorem process_image_encodes_at_module_quality:
  "(case process_image module_globals example_env ''a.png'' ''page0001.jpg'' 50 of
      Inl err \<Rightarrow> False
    | Inr call \<Rightarrow> quality call = 75)"
  by (simp add: process_image_def module_globals_def example_env_def source_density_def
      png_image_def jpeg_save_def Let_def)

subsection \<open>The selection rule\<close>

text \<open>
  Claim C1, as stated: for every input image, either the original path or the path of
  the recompressed file is appended to the output list. An RGBA PNG opens, is not
  converted (its mode is none of \<open>1\<close>, \<open>L\<close>, \<open>P\<close>), and \<open>image.save\<close> cannot write it as
  JPEG: the \<open>OSError\<close> is none of the two errors the loop catches, so the loop ends
  with that error and appends neither path.
\<close>

theorem selection_rule_counterexample:
  "open_image example_env ''c.png'' = Inr rgba_image
   \<and> process_input module_globals example_env ''/tmp/t'' 1 loop_init ''c.png'' = Inl OSError"
  by code_simp

text \<open>
  Claim C1, amended: for every input image that opens and is recompressed without
  error (\<open>process_image\<close> returns, so \<open>image.save\<close> wrote the temporary file), one pass
  of the loop appends exactly one path to the output list: the original path if the
  detected format is JPEG, forced recompression is off and the size of the original is
  at most the size of the file written; the path of the recompressed file in every
  other case.
\<close>

theorem selection_rule:
  assumes "open_image e input_file = Inr img"
    and "process_image g e input_file (temp_output_file temp_dir n (input_file_counter st))
           (jpeg_compression_quality g) = Inr call"
  shows "save e call = Inr (written_size e call)
         \<and> (\<exists>st'.
              process_input g e temp_dir n st input_file = Inr st'
              \<and> image_files st' = image_files st @
                  [if upper (format img) = ''JPEG'' \<and> \<not> recompress_all_jpegs g
                      \<and> getsize e input_file \<le> written_size e call
                   then input_file
                   else temp_output_file temp_dir n (input_file_counter st)])"
  using process_input_opened [OF assms] process_image_saved [OF assms(2)] by blast

theorem selection_rule_witness:
  "open_image example_env ''b.jpg'' = Inr jpeg_image
   \<and> (\<exists>st'. process_input module_globals example_env ''/tmp/t'' 2 loop_init ''b.jpg'' = Inr st'
          \<and> image_files st' = [''b.jpg''])"
proof -
  have h1: "open_image example_env ''b.jpg'' = Inr jpeg_image"
    by (simp add: example_env_def)
  have size: "written_size example_env
      \<lparr>save_path = ''/tmp/t/page0001.jpg'', save_mode = ''RGB'', optimize = True,
          quality = 75, jfif_density = Pair 300 300, jfif_unit = Num 1, dpi = Pair 300 300\<rparr> = 2000"
    by (simp add: written_size_def example_env_def jpeg_save_def)
  from selection_rule [OF h1 b_jpg_call] h1 size
  show ?thesis
    by (auto simp: jpeg_image_def upper_def upper_char_def module_globals_def example_env_def
        loop_init_def)
qed

subsection \<open>The orchestrator\<close>




section \<open>Output path and document post-processing\<close>

subsection \<open>Auxiliary facts\<close>

lemma find_from_minus_one: "(find_from c s i = -1) = (c \<notin> set s)" if "0 \<le> i"
  using that
proof (induction s arbitrary: i)
  case Nil then show ?case by simp
next
  case (Cons x xs)
  from Cons.IH [of "i + 1"] Cons.prems show ?case by auto
qed

lemma pdf_output_filepath_dot:
  "pdf_output_filepath p = (if CHR ''.'' \<in> set p then p else p @ ''.pdf'')"
  by (simp add: pdf_output_filepath_def str_find_def find_from_minus_one)

lemma map_of_dict_set: "map_of (dict_set d k v) = (map_of d)(k \<mapsto> v)"
  by (induction d) auto

lemma scan_style_shape:
  "scan s i st = Inr st' \<Longrightarrow> style st = None \<or> (\<exists>c. style st = Some [CHR ''/'', c]) \<Longrightarrow>
   style st' = None \<or> (\<exists>c. style st' = Some [CHR ''/'', c])"
proof (induction s i st rule: scan.induct)
  case (1 i st)
  then show ?case by simp
next
  case (2 c cs i st)
  then show ?case
    by (auto simp: end_of_pair_def split: if_splits)
qed

lemma parsed_style_truthy:
  assumes "page_numbering_setting arg = Some (prefix, sty)"
  shows "truthy sty = (sty \<noteq> None)"
proof (cases arg)
  case None
  with assms show ?thesis by (simp add: page_numbering_setting_def)
next
  case (Some page_format)
  with assms obtain st where st: "scan page_format 0 scan_init = Inr st" and "sty = style st"
    by (auto simp: page_numbering_setting_def parse_page_number_formatting_string_def Let_def
        split: sum.splits if_splits)
  with scan_style_shape [OF st] show ?thesis
    by (auto simp: scan_init_def)
qed

lemma page_label_fields:
  "map_of (page_label prefix sty first) ''/P''
     = (if truthy prefix then Some (PStr (the prefix)) else None)"
  "map_of (page_label prefix sty first) ''/S''
     = (if truthy sty then Some (PName (the sty)) else None)"
  "map_of (page_label prefix sty first) ''/St''
     = (if first > 1 then Some (PInt first) else None)"
  "dom (map_of (page_label prefix sty first)) \<subseteq> {''/P'', ''/S'', ''/St''}"
  by (auto simp: page_label_def map_of_dict_set split: if_splits)

lemma additional_processing_ok:
  assumes "pages pdf = pg # rest" and "4 \<le> length (MediaBox pg)"
  shows "additional_processing s pdf =
     Inr (pdf\<lparr>Root :=
       (let root1 = dict_set (Root pdf) ''/PageLabels''
                 (PDict [(''/Nums'', PArray [PInt 0, PDict (page_label (page_numbering_prefix s)
                    (page_numbering_style s) (first_page s))])])
        in if truthy (magnification s)
           then dict_set root1 ''/OpenAction''
                  (PArray (openaction_array 0 (MediaBox pg ! 3) (the (magnification s))))
           else root1)\<rparr>)"
  using assms by (simp add: additional_processing_def index_def Let_def)

text \<open>A path that has an extension contains a dot, and is left as it is.\<close>

lemma extension_unchanged:
  assumes "splitext_ext p \<noteq> []"
  shows "pdf_output_filepath p = p"
proof -
  from assms have "CHR ''.'' \<in> set (dropWhile (\<lambda>c. c = CHR ''.'') (basename p))"
    by (auto simp: splitext_ext_def Let_def split: if_splits)
  then have "CHR ''.'' \<in> set (basename p)"
    by (rule set_dropWhileD)
  then have "CHR ''.'' \<in> set p"
    unfolding basename_def by (auto dest: set_takeWhileD)
  then show ?thesis by (simp add: pdf_output_filepath_dot)
qed

text \<open>The page-label dictionary for the two settings the specification names.\<close>

lemma page_label_examples:
  "page_label (Some []) (Some ''/D'') 5 = [(''/S'', PName ''/D''), (''/St'', PInt 5)]"
  "page_label (Some []) (Some ''/D'') 1 = [(''/S'', PName ''/D'')]"
  "page_label (Some ''A-'') None 1 = [(''/P'', PStr ''A-'')]"
  by (simp_all add: page_label_def)

subsection \<open>The default extension of the output path\<close>

text \<open>
  Claim C9. An output path without an extension should get \<open>.pdf\<close> appended. The
  program looks for a dot anywhere in the path, not in the file name: the path
  \<open>./out\<close> has no extension, contains a dot, and is left as \<open>./out\<close>.
\<close>

theorem output_path_with_dotted_directory:
  "splitext_ext ''./out'' = [] \<and> pdf_output_filepath ''./out'' = ''./out''"
  by (simp add: pdf_output_filepath_dot splitext_ext_def basename_def)

subsection \<open>The page-label table\<close>

text \<open>
  Claim C7. With the prefix and style that the page-numbering argument gave, and a
  document whose first page has a media box, the post-processor succeeds and installs
  under \<open>/PageLabels\<close> a table with the single range \<open>[0, label]\<close>, where \<open>label\<close> has
  \<open>/P\<close> exactly when the parsed prefix is non-empty, \<open>/S\<close> exactly when a style was
  parsed, \<open>/St\<close> exactly when the first page number is greater than 1, and no other key.
\<close>

theorem page_label_table:
  assumes "page_numbering_setting arg = Some (page_numbering_prefix s, page_numbering_style s)"
    and "pages pdf = pg # rest" and "4 \<le> length (MediaBox pg)"
  shows "\<exists>pdf' label.
     additional_processing s pdf = Inr pdf'
     \<and> map_of (Root pdf') ''/PageLabels''
         = Some (PDict [(''/Nums'', PArray [PInt 0, PDict label])])
     \<and> map_of label ''/P''
         = (case page_numbering_prefix s of
              None \<Rightarrow> None
            | Some p \<Rightarrow> if p = [] then None else Some (PStr p))
     \<and> map_of label ''/S'' = map_option PName (page_numbering_style s)
     \<and> map_of label ''/St'' = (if first_page s > 1 then Some (PInt (first_page s)) else None)
     \<and> dom (map_of label) \<subseteq> {''/P'', ''/S'', ''/St''}"
proof -
  let ?label = "page_label (page_numbering_prefix s) (page_numbering_style s) (first_page s)"
  from parsed_style_truthy [OF assms(1)]
  have sty: "map_of ?label ''/S'' = map_option PName (page_numbering_style s)"
    by (cases "page_numbering_style s") (simp_all add: page_label_fields(2))
  have pre: "map_of ?label ''/P''
         = (case page_numbering_prefix s of
              None \<Rightarrow> None
            | Some p \<Rightarrow> if p = [] then None else Some (PStr p))"
    by (cases "page_numbering_prefix s") (simp_all add: page_label_fields(1))
  have root: "map_of (Root (the_pdf)) ''/PageLabels'' = Some (PDict [(''/Nums'', PArray [PInt 0, PDict ?label])])"
    if "additional_processing s pdf = Inr the_pdf" for the_pdf
    using that additional_processing_ok [OF assms(2,3), of s]
    by (auto simp: Let_def map_of_dict_set)
  from additional_processing_ok [OF assms(2,3), of s] obtain pdf' where
    pdf': "additional_processing s pdf = Inr pdf'" by blast
  show ?thesis
    apply (rule exI [of _ pdf'])
    apply (rule exI [of _ ?label])
    using pdf' root [OF pdf'] sty pre page_label_fields(3,4) [of "page_numbering_prefix s" "page_numbering_style s" "first_page s"]
    by simp
qed

theorem page_label_table_witness:
  "page_numbering_setting (Some ''%D'')
     = Some (page_numbering_prefix (example_settings\<lparr>first_page := 5\<rparr>),
             page_numbering_style (example_settings\<lparr>first_page := 5\<rparr>))
   \<and> pages one_page_document = [\<lparr>MediaBox = [PInt 0, PInt 0, PInt 595, PInt 842]\<rparr>]
   \<and> (\<exists>pdf' label.
        additional_processing (example_settings\<lparr>first_page := 5\<rparr>) one_page_document = Inr pdf'
        \<and> map_of (Root pdf') ''/PageLabels''
            = Some (PDict [(''/Nums'', PArray [PInt 0, PDict label])])
        \<and> map_of label ''/P'' = None
        \<and> map_of label ''/S'' = Some (PName ''/D'')
        \<and> map_of label ''/St'' = Some (PInt 5))"
proof -
  have h1: "page_numbering_setting (Some ''%D'')
     = Some (page_numbering_prefix (example_settings\<lparr>first_page := 5\<rparr>),
             page_numbering_style (example_settings\<lparr>first_page := 5\<rparr>))"
    by (simp add: page_numbering_setting_def parse_page_number_formatting_string_def
        scan_init_def end_of_pair_def slice_to_def example_settings_def)
  have h2: "pages one_page_document = \<lparr>MediaBox = [PInt 0, PInt 0, PInt 595, PInt 842]\<rparr> # []"
    by (simp add: one_page_document_def)
  have h3: "4 \<le> length (MediaBox \<lparr>MediaBox = [PInt 0, PInt 0, PInt 595, PInt 842]\<rparr>)"
    by simp
  from page_label_table [OF h1 h2 h3] obtain pdf' label where
    "additional_processing (example_settings\<lparr>first_page := 5\<rparr>) one_page_document = Inr pdf'"
    "map_of (Root pdf') ''/PageLabels''
            = Some (PDict [(''/Nums'', PArray [PInt 0, PDict label])])"
    "map_of label ''/P'' = None"
    "map_of label ''/S'' = Some (PName ''/D'')"
    "map_of label ''/St'' = Some (PInt 5)"
    by (auto simp: example_settings_def)
  with h1 h2 show ?thesis by blast
qed

subsection \<open>The open action\<close>

text \<open>
  Claim C8. For a document whose first page has a media box and a magnification that
  is absent or one of \<open>FitH\<close>, \<open>FitV\<close>, \<open>Fit\<close>: with a magnification \<open>m\<close> the
  post-processor installs under \<open>/OpenAction\<close> the array that starts with page index 0
  and the name \<open>/m\<close>, followed by the height of the first page for \<open>FitH\<close>, by 0 for
  \<open>FitV\<close>, and by nothing for \<open>Fit\<close>; without a magnification the \<open>/OpenAction\<close> entry
  of the document is what it was, so none is installed.
\<close>

theorem open_action:
  assumes "pages pdf = pg # rest" and "4 \<le> length (MediaBox pg)"
    and "magnification s \<in> {None, Some ''FitH'', Some ''FitV'', Some ''Fit''}"
  shows "\<exists>pdf'.
     additional_processing s pdf = Inr pdf'
     \<and> map_of (Root pdf') ''/OpenAction''
         = (case magnification s of
              None \<Rightarrow> map_of (Root pdf) ''/OpenAction''
            | Some m \<Rightarrow>
                Some (PArray ([PInt 0, PName (''/'' @ m)]
                        @ (if m = ''FitH'' then [MediaBox pg ! 3]
                           else if m = ''FitV'' then [PInt 0]
                           else []))))"
  using assms(3) additional_processing_ok [OF assms(1,2), of s]
  by (auto simp: Let_def map_of_dict_set openaction_array_def)

theorem open_action_witness:
  "pages one_page_document = [\<lparr>MediaBox = [PInt 0, PInt 0, PInt 595, PInt 842]\<rparr>]
   \<and> (\<exists>pdf'. additional_processing (example_settings\<lparr>magnification := Some ''FitH''\<rparr>)
                one_page_document = Inr pdf'
        \<and> map_of (Root pdf') ''/OpenAction''
            = Some (PArray [PInt 0, PName ''/FitH'', PInt 842]))
   \<and> (\<exists>pdf'. additional_processing example_settings one_page_document = Inr pdf'
        \<and> map_of (Root pdf') ''/OpenAction'' = None)"
proof -
  have h1: "pages one_page_document = \<lparr>MediaBox = [PInt 0, PInt 0, PInt 595, PInt 842]\<rparr> # []"
    by (simp add: one_page_document_def)
  have h2: "4 \<le> length (MediaBox \<lparr>MediaBox = [PInt 0, PInt 0, PInt 595, PInt 842]\<rparr>)"
    by simp
  have h3: "magnification (example_settings\<lparr>magnification := Some ''FitH''\<rparr>)
              \<in> {None, Some ''FitH'', Some ''FitV'', Some ''Fit''}"
    by simp
  have h4: "magnification example_settings \<in> {None, Some ''FitH'', Some ''FitV'', Some ''Fit''}"
    by (simp add: example_settings_def)
  from open_action [OF h1 h2 h3] open_action [OF h1 h2 h4] h1
  show ?thesis
    by (simp add: example_settings_def one_page_document_def)
qed

section \<open>A run from end to end\<close>

text \<open>Four inputs, of which one is missing and one is not an image: the palette PNG is
  recompressed, the JPEG is smaller than its recompressed file and is kept, and the
  document gets its page labels and no open action.\<close>

lemma temp_name: "temp_output_file ''/tmp/t'' 4 1 = ''/tmp/t/page0001.jpg''"
  by code_simp

lemma main_program_example:
  "main_program module_globals example_env ''/tmp/t'' example_settings
     [''a.png'', ''missing.jpg'', ''b.jpg'', ''notes.txt'']
   = \<lparr>ending = Written,
      events = [Assemble [''/tmp/t/page0001.jpg'', ''b.jpg''] [] [] PageMode_none,
                Persist ''out.pdf''
                  (one_page_document\<lparr>Root :=
                     [(''/PageLabels'', PDict [(''/Nums'', PArray [PInt 0,
                         PDict [(''/S'', PName ''/D'')]])])]\<rparr>)],
      files = [''/tmp/t/page0001.jpg'', ''b.jpg'']\<rparr>"
  by code_simp

end
